theory Spec2Isabelle
  imports Main "HOL-Library.Sublist"
begin

section \<open>Text rendering used by the backend\<close>

text \<open>
  The backend (\<^verbatim>\<open>backend.c\<close>) renders numbers with \<^verbatim>\<open>g_snprintf\<close>. The two
  conversions it uses are \<^verbatim>\<open>%ld\<close> (a signed decimal integer) and \<^verbatim>\<open>%.1f\<close> (a double with
  one digit after the point, correctly rounded, ties to even). A \<^verbatim>\<open>gchar*\<close> is a
  \<^typ>\<open>string\<close>; a \<^verbatim>\<open>gchar*\<close> that may be \<^verbatim>\<open>NULL\<close> is a \<^typ>\<open>string option\<close>.
\<close>

definition digit_char :: "nat \<Rightarrow> char" where
  "digit_char d = ''0123456789'' ! d"

text \<open>The decimal digits of a non-negative integer, most significant first.\<close>

function show_nat :: "int \<Rightarrow> string" where
  "show_nat n =
     (if n < 10 then [digit_char (nat n)] else show_nat (n div 10) @ [digit_char (nat (n mod 10))])"
  by pat_completeness auto
termination
  by (relation "measure nat") auto

declare show_nat.simps [simp del]

text \<open>\<^verbatim>\<open>%ld\<close>\<close>

definition show_int :: "int \<Rightarrow> string" where
  "show_int i = (if i < 0 then CHR ''-'' # show_nat (- i) else show_nat i)"

text \<open>Rounding of the quotient \<open>a / b\<close> (\<open>b > 0\<close>) to the nearest integer, ties to even.\<close>

definition round_half_even :: "int \<Rightarrow> int \<Rightarrow> int" where
  "round_half_even a b =
     (let q = a div b; r = a mod b in
      if 2 * r < b then q else if b < 2 * r then q + 1 else if even q then q else q + 1)"

text \<open>The number of binary digits of a positive integer.\<close>

function bitlen :: "int \<Rightarrow> nat" where
  "bitlen n = (if n \<le> 0 then 0 else Suc (bitlen (n div 2)))"
  by pat_completeness auto
termination
  by (relation "measure nat") auto

declare bitlen.simps [simp del]

text \<open>
  The cast \<^verbatim>\<open>(gdouble)size\<close> of a 64-bit \<^verbatim>\<open>off_t\<close>: a double has a 53-bit significand, so a
  value of more than 53 bits is rounded (ties to even) to a multiple of \<open>2 ^ e\<close>, where \<open>e\<close>
  is the number of bits in excess. The result is an integer in every case.
\<close>

definition gdouble_of_off_t :: "int \<Rightarrow> int" where
  "gdouble_of_off_t n =
     (let a = \<bar>n\<bar>; e = bitlen a - 53; r = round_half_even a (2 ^ e) * 2 ^ e
      in if n < 0 then - r else r)"

text \<open>
  \<^verbatim>\<open>%.1f\<close> of the double \<open>m / d\<close>, for \<open>d\<close> a power of two (the division is then exact in
  binary floating point) and \<open>m \<ge> 0\<close>: the number of tenths is rounded from the exact value.
  \<open>fixed1 t\<close> writes \<open>t\<close> tenths.
\<close>

definition fixed1 :: "int \<Rightarrow> string" where
  "fixed1 t = show_int (t div 10) @ ''.'' @ show_int (t mod 10)"

definition printf_1f :: "int \<Rightarrow> int \<Rightarrow> string" where
  "printf_1f m d = fixed1 (round_half_even (10 * m) d)"

text \<open>\<^verbatim>\<open>format_size\<close> (backend.c, lines 34-41).\<close>

definition format_size :: "int \<Rightarrow> string" where
  "format_size sz =
     (if sz < 1024 then show_int sz @ '' B''
      else if sz < 1024 * 1024 then printf_1f (gdouble_of_off_t sz) 1024 @ '' KB''
      else printf_1f (gdouble_of_off_t sz) (1024 * 1024) @ '' MB'')"


section \<open>Path strings (GLib)\<close>

text \<open>
  The backend builds every path with GLib: \<^verbatim>\<open>g_build_filename\<close>, \<^verbatim>\<open>g_path_get_basename\<close>,
  \<^verbatim>\<open>g_path_get_dirname\<close> and \<^verbatim>\<open>g_strconcat\<close>. They are library functions, written here as
  GLib documents them for the separator \<^verbatim>\<open>/\<close>.
\<close>

definition is_sep :: "char \<Rightarrow> bool" where
  "is_sep c = (c = CHR ''/'')"

definition leading_seps :: "string \<Rightarrow> string" where
  "leading_seps s = takeWhile is_sep s"

definition trailing_seps :: "string \<Rightarrow> string" where
  "trailing_seps s = rev (takeWhile is_sep (rev s))"

definition strip_trailing :: "string \<Rightarrow> string" where
  "strip_trailing s = rev (dropWhile is_sep (rev s))"

definition core :: "string \<Rightarrow> string" where
  "core s = strip_trailing (dropWhile is_sep s)"

definition g_strconcat :: "string \<Rightarrow> string \<Rightarrow> string" where
  "g_strconcat a b = a @ b"

text \<open>
  \<^verbatim>\<open>g_build_filename (a, b, NULL)\<close>: empty elements are ignored; the leading separators of
  the first element and the trailing separators of the last one are kept; between two
  elements, the separators on both sides are replaced by exactly one.
\<close>

definition g_build_filename :: "string \<Rightarrow> string \<Rightarrow> string" where
  "g_build_filename a b =
     (if a = [] then b
      else if b = [] then a
      else leading_seps a
           @ (if core a = [] then core b
              else if core b = [] then core a
              else core a @ ''/'' @ core b)
           @ trailing_seps b)"

text \<open>A path string cut at its last separator: the part up to and including it, and the
  part after it.\<close>

definition dir_part :: "string \<Rightarrow> string" where
  "dir_part s = rev (dropWhile (\<lambda>c. \<not> is_sep c) (rev s))"

definition last_part :: "string \<Rightarrow> string" where
  "last_part s = rev (takeWhile (\<lambda>c. \<not> is_sep c) (rev s))"

text \<open>
  \<^verbatim>\<open>g_path_get_basename\<close>: \<^verbatim>\<open>"."\<close> for the empty string, \<^verbatim>\<open>"/"\<close> for a string of separators
  only, otherwise the last component, without trailing separators.
\<close>

definition g_path_get_basename :: "string \<Rightarrow> string" where
  "g_path_get_basename s =
     (if s = [] then ''.''
      else let t = strip_trailing s in if t = [] then ''/'' else last_part t)"

text \<open>
  \<^verbatim>\<open>g_path_get_dirname\<close>: \<^verbatim>\<open>"."\<close> when there is no separator; otherwise everything before
  the last separator, without the separators that end it (\<^verbatim>\<open>"/"\<close> when nothing else is left).
\<close>

definition g_path_get_dirname :: "string \<Rightarrow> string" where
  "g_path_get_dirname s =
     (if \<not> (\<exists>c \<in> set s. is_sep c) then ''.''
      else let t = strip_trailing (dir_part s) in if t = [] then ''/'' else t)"

text \<open>
  How the kernel reads a path string: the pieces between separators. Empty pieces (doubled
  or trailing separators) name nothing.
\<close>

primrec split_sep :: "string \<Rightarrow> string list" where
  "split_sep [] = [[]]"
| "split_sep (c # cs) =
     (if is_sep c then [] # split_sep cs
      else (case split_sep cs of [] \<Rightarrow> [[c]] | x # xs \<Rightarrow> (c # x) # xs))"

definition comps :: "string \<Rightarrow> string list" where
  "comps s = filter (\<lambda>x. x \<noteq> []) (split_sep s)"

definition absolute :: "string \<Rightarrow> bool" where
  "absolute s = (case s of [] \<Rightarrow> False | c # _ \<Rightarrow> is_sep c)"

text \<open>A plain name: what \<^verbatim>\<open>readdir\<close> returns for a real child, one non-empty piece that is
  neither \<^verbatim>\<open>.\<close> nor \<^verbatim>\<open>..\<close>.\<close>

definition plain_name :: "string \<Rightarrow> bool" where
  "plain_name n = (n \<noteq> [] \<and> n \<noteq> ''.'' \<and> n \<noteq> ''..'' \<and> (\<forall>c \<in> set n. \<not> is_sep c))"


section \<open>The file system the backend runs on\<close>

text \<open>
  The backend is a thin layer over POSIX system calls, so its behaviour is stated over a
  model of the file system they act on. An object is a regular file with its bytes, a
  directory with its owner-write permission, or a symbolic link with its target string. The
  file system is a table from canonical paths (the list of names from the root, \<open>[]\<close> for
  the root itself) to objects; the order of the table is the order in which \<^verbatim>\<open>readdir\<close>
  enumerates. Read and search permissions, hard links, devices and timestamps updates are
  not modelled: every directory can be read and searched, and every file can be read and
  written. \<open>space\<close> is the number of bytes the volume can still take.
\<close>

datatype obj = FileObj string | DirObj bool | LinkObj string

record world =
  files :: "(string list \<times> obj) list"
  cwd :: "string list"
  space :: nat
  mtime :: "string list \<Rightarrow> int"

definition lookup :: "world \<Rightarrow> string list \<Rightarrow> obj option" where
  "lookup w p = map_of (files w) p"

definition is_dir_obj :: "obj option \<Rightarrow> bool" where
  "is_dir_obj x = (case x of Some (DirObj _) \<Rightarrow> True | _ \<Rightarrow> False)"

definition writable_dir :: "obj option \<Rightarrow> bool" where
  "writable_dir x = (case x of Some (DirObj m) \<Rightarrow> m | _ \<Rightarrow> False)"

text \<open>The names in the directory at canonical path \<open>p\<close>, in enumeration order.\<close>

definition children :: "world \<Rightarrow> string list \<Rightarrow> string list" where
  "children w p = map (\<lambda>(q, _). last q) (filter (\<lambda>(q, _). q \<noteq> [] \<and> butlast q = p) (files w))"


subsection \<open>Path resolution\<close>

text \<open>
  The kernel walks a path piece by piece from a start directory. Every piece but the last
  must lead through a directory; \<^verbatim>\<open>.\<close> stays, \<^verbatim>\<open>..\<close> goes up (the root is its own
  parent); a symbolic link met on the way is replaced by the pieces of its target, at most
  \<open>k\<close> times in one resolution (\<^verbatim>\<open>ELOOP\<close> beyond). A link in the last position is followed
  only when \<open>fl\<close> is set: \<open>follow_target\<close> is the target of the link to follow at the
  piece \<open>c\<close>, if there is one. The result is the canonical path the string names, whether or not
  an object exists there (the caller looks it up); \<open>None\<close> is \<^verbatim>\<open>ENOENT\<close>, \<^verbatim>\<open>ENOTDIR\<close>
  or \<^verbatim>\<open>ELOOP\<close>.
\<close>

definition follow_target :: "(string list \<Rightarrow> obj option) \<Rightarrow> bool \<Rightarrow> string list \<Rightarrow> string
    \<Rightarrow> string list \<Rightarrow> string option" where
  "follow_target fs fl cur c cs =
     (if cs = [] \<and> \<not> fl then None
      else case fs (cur @ [c]) of Some (LinkObj t) \<Rightarrow> Some t | _ \<Rightarrow> None)"

fun walk :: "nat \<Rightarrow> (string list \<Rightarrow> obj option) \<Rightarrow> bool \<Rightarrow> string list \<Rightarrow> string list
    \<Rightarrow> string list option" where
  "walk k fs fl cur [] = Some cur"
| "walk k fs fl cur (c # cs) =
     (if \<not> is_dir_obj (fs cur) then None
      else if c = ''.'' then walk k fs fl cur cs
      else if c = ''..'' then walk k fs fl (butlast cur) cs
      else (case follow_target fs fl cur c cs of
              None \<Rightarrow> walk k fs fl (cur @ [c]) cs
            | Some t \<Rightarrow>
                (case k of
                   0 \<Rightarrow> None
                 | Suc k' \<Rightarrow> walk k' fs fl (if absolute t then [] else cur) (comps t @ cs))))"

definition SYMLOOP_MAX :: nat where
  "SYMLOOP_MAX = 40"

definition ends_with_sep :: "string \<Rightarrow> bool" where
  "ends_with_sep s = (s \<noteq> [] \<and> is_sep (last s))"

text \<open>
  \<open>namei fl w s\<close>: the canonical path of the string \<open>s\<close>. The empty string names nothing.
  A string that ends in a separator names a directory: its last link is followed, and an
  existing object that is not a directory is refused.
\<close>

definition namei :: "bool \<Rightarrow> world \<Rightarrow> string \<Rightarrow> string list option" where
  "namei fl w s =
     (if s = [] then None
      else case walk SYMLOOP_MAX (lookup w) (fl \<or> ends_with_sep s)
                  (if absolute s then [] else cwd w) (comps s) of
             None \<Rightarrow> None
           | Some cp \<Rightarrow>
               if ends_with_sep s \<and> lookup w cp \<noteq> None \<and> \<not> is_dir_obj (lookup w cp) then None
               else Some cp)"

text \<open>
  The resolution used to create a name: the last piece is never followed, whatever the
  string ends in.
\<close>

definition lnamei :: "world \<Rightarrow> string \<Rightarrow> string list option" where
  "lnamei w s =
     (if s = [] then None
      else walk SYMLOOP_MAX (lookup w) False (if absolute s then [] else cwd w) (comps s))"

text \<open>The last piece of a path string, when it has one.\<close>

definition last_comp :: "string \<Rightarrow> string option" where
  "last_comp s = (case comps s of [] \<Rightarrow> None | c # cs \<Rightarrow> Some (last (c # cs)))"

definition dot_or_dotdot :: "string \<Rightarrow> bool" where
  "dot_or_dotdot s = (last_comp s = Some ''.'' \<or> last_comp s = Some ''..'')"

subsection \<open>System calls\<close>

record stat =
  st_isdir :: bool
  st_size :: int
  st_mtime :: int
  st_wmode :: bool

definition stat_of :: "world \<Rightarrow> string list \<Rightarrow> obj \<Rightarrow> stat" where
  "stat_of w cp ob =
     \<lparr>st_isdir = (case ob of DirObj _ \<Rightarrow> True | _ \<Rightarrow> False),
      st_size = (case ob of FileObj d \<Rightarrow> int (length d) | DirObj _ \<Rightarrow> 0 | LinkObj t \<Rightarrow> int (length t)),
      st_mtime = mtime w cp,
      st_wmode = (case ob of DirObj m \<Rightarrow> m | _ \<Rightarrow> True)\<rparr>"

text \<open>\<^verbatim>\<open>stat\<close> follows a final symbolic link, \<^verbatim>\<open>lstat\<close> does not. \<open>None\<close> is the result \<open>-1\<close>.\<close>

definition sys_stat_gen :: "bool \<Rightarrow> world \<Rightarrow> string \<Rightarrow> stat option" where
  "sys_stat_gen fl w path =
     (case namei fl w path of
        None \<Rightarrow> None
      | Some cp \<Rightarrow> (case lookup w cp of None \<Rightarrow> None | Some ob \<Rightarrow> Some (stat_of w cp ob)))"

definition sys_stat :: "world \<Rightarrow> string \<Rightarrow> stat option" where
  "sys_stat = sys_stat_gen True"


text \<open>
  \<^verbatim>\<open>opendir\<close> with every \<^verbatim>\<open>readdir\<close> until \<^verbatim>\<open>NULL\<close>: the names of the stream, which start
  with \<^verbatim>\<open>.\<close> and \<^verbatim>\<open>..\<close>. \<open>None\<close> is the \<^verbatim>\<open>NULL\<close> of \<^verbatim>\<open>opendir\<close>.
\<close>

definition sys_opendir :: "world \<Rightarrow> string \<Rightarrow> string list option" where
  "sys_opendir w path =
     (case namei True w path of
        None \<Rightarrow> None
      | Some cp \<Rightarrow> if is_dir_obj (lookup w cp) then Some (''.'' # ''..'' # children w cp) else None)"

text \<open>
  \<^verbatim>\<open>mkdir (path, mode)\<close>: fails when anything, even a dangling link, has the name, or when
  the parent directory is not writable. The new directory takes the owner-write bit of
  \<open>mode\<close>. The result is \<open>True\<close> for the return value \<open>0\<close>.
\<close>

definition sys_mkdir :: "world \<Rightarrow> string \<Rightarrow> bool \<Rightarrow> bool \<times> world" where
  "sys_mkdir w path wmode =
     (case lnamei w path of
        None \<Rightarrow> (False, w)
      | Some cp \<Rightarrow>
          if cp = [] \<or> lookup w cp \<noteq> None \<or> \<not> writable_dir (lookup w (butlast cp))
          then (False, w)
          else (True, w\<lparr>files := files w @ [(cp, DirObj wmode)]\<rparr>))"


text \<open>
  \<^verbatim>\<open>open\<close>. A descriptor is the canonical path of the object it refers to. With
  \<^verbatim>\<open>O_CREAT | O_EXCL\<close> the call fails when anything has the name (a final link is not
  followed). Otherwise a final link is followed; \<^verbatim>\<open>O_CREAT\<close> creates a missing file in a
  writable directory, \<^verbatim>\<open>O_TRUNC\<close> empties an existing one, and a directory cannot be opened
  for writing.
\<close>

datatype oflag = O_RDONLY | O_WRONLY | O_CREAT | O_EXCL | O_TRUNC

definition set_obj :: "world \<Rightarrow> string list \<Rightarrow> obj \<Rightarrow> world" where
  "set_obj w cp ob = w\<lparr>files := map (\<lambda>(q, o'). if q = cp then (q, ob) else (q, o')) (files w)\<rparr>"

definition sys_open :: "world \<Rightarrow> string \<Rightarrow> oflag list \<Rightarrow> string list option \<times> world" where
  "sys_open w path fl =
     (if O_CREAT \<in> set fl \<and> O_EXCL \<in> set fl then
        (case lnamei w path of
           None \<Rightarrow> (None, w)
         | Some cp \<Rightarrow>
             if cp = [] \<or> lookup w cp \<noteq> None \<or> ends_with_sep path
                \<or> \<not> writable_dir (lookup w (butlast cp))
             then (None, w)
             else (Some cp, w\<lparr>files := files w @ [(cp, FileObj [])]\<rparr>))
      else
        (case namei True w path of
           None \<Rightarrow> (None, w)
         | Some cp \<Rightarrow>
             (case lookup w cp of
                Some (FileObj d) \<Rightarrow>
                  if O_TRUNC \<in> set fl \<and> O_WRONLY \<in> set fl then (Some cp, set_obj w cp (FileObj []))
                  else (Some cp, w)
              | Some (DirObj m) \<Rightarrow> if O_WRONLY \<in> set fl then (None, w) else (Some cp, w)
              | Some (LinkObj t) \<Rightarrow> (None, w)
              | None \<Rightarrow>
                  if O_CREAT \<in> set fl \<and> cp \<noteq> [] \<and> \<not> ends_with_sep path
                     \<and> writable_dir (lookup w (butlast cp))
                  then (Some cp, w\<lparr>files := files w @ [(cp, FileObj [])]\<rparr>)
                  else (None, w))))"

text \<open>
  \<^verbatim>\<open>read (fd, buf, n)\<close> at offset \<open>off\<close>: the next at most \<open>n\<close> bytes, the empty list at the
  end of the file; \<open>None\<close> is \<open>-1\<close> (the descriptor is a directory).
\<close>

definition sys_read :: "world \<Rightarrow> string list \<Rightarrow> nat \<Rightarrow> nat \<Rightarrow> string option" where
  "sys_read w fd off n =
     (case lookup w fd of Some (FileObj d) \<Rightarrow> Some (take n (drop off d)) | _ \<Rightarrow> None)"

text \<open>
  \<^verbatim>\<open>write (fd, buf, n)\<close> at the end of the file: as many bytes as the volume still takes.
  The result is the number of bytes written, \<open>-1\<close> when none could be.
\<close>

definition sys_write :: "world \<Rightarrow> string list \<Rightarrow> string \<Rightarrow> int \<times> world" where
  "sys_write w fd buf =
     (case lookup w fd of
        Some (FileObj d) \<Rightarrow>
          if buf \<noteq> [] \<and> space w = 0 then (- 1, w)
          else let k = min (length buf) (space w)
               in (int k, (set_obj w fd (FileObj (d @ take k buf)))\<lparr>space := space w - k\<rparr>)
      | _ \<Rightarrow> (- 1, w))"

text \<open>
  \<^verbatim>\<open>remove\<close>: \<^verbatim>\<open>rmdir\<close> for a directory, \<^verbatim>\<open>unlink\<close> for anything else; a link is removed
  itself. The errors are kept apart, \<^verbatim>\<open>ENOTEMPTY\<close> first: it is the answer whenever the
  target is a directory that still has entries.
\<close>

datatype rm_result = Removed | ENOENT | EINVAL | EBUSY | ENOTEMPTY | EACCES

definition sys_remove :: "world \<Rightarrow> string \<Rightarrow> rm_result \<times> world" where
  "sys_remove w path =
     (case namei False w path of
        None \<Rightarrow> (ENOENT, w)
      | Some cp \<Rightarrow>
          (case lookup w cp of
             None \<Rightarrow> (ENOENT, w)
           | Some ob \<Rightarrow>
               if is_dir_obj (Some ob) \<and> children w cp \<noteq> [] then (ENOTEMPTY, w)
               else if dot_or_dotdot path then (EINVAL, w)
               else if cp = [] then (EBUSY, w)
               else if \<not> writable_dir (lookup w (butlast cp)) then (EACCES, w)
               else (Removed, w\<lparr>files := filter (\<lambda>(q, _). q \<noteq> cp) (files w)\<rparr>)))"

text \<open>
  \<^verbatim>\<open>rename (old, new)\<close>: neither final link is followed. Renaming an object to itself does
  nothing; a directory cannot move below itself; both parent directories must be writable;
  an existing target is replaced when it is of the same kind (and, for a directory, empty).
  A moved directory takes everything below it along.
\<close>

definition rekey :: "string list \<Rightarrow> string list \<Rightarrow> string list \<Rightarrow> string list" where
  "rekey ocp ncp q = (if prefix ocp q then ncp @ drop (length ocp) q else q)"

definition sys_rename :: "world \<Rightarrow> string \<Rightarrow> string \<Rightarrow> bool \<times> world" where
  "sys_rename w old new =
     (case (namei False w old, namei False w new) of
        (Some ocp, Some ncp) \<Rightarrow>
          (case lookup w ocp of
             None \<Rightarrow> (False, w)
           | Some ob \<Rightarrow>
               if dot_or_dotdot old \<or> dot_or_dotdot new then (False, w)
               else if ocp = ncp then (True, w)
               else if prefix ocp ncp \<or> ocp = [] \<or> ncp = [] then (False, w)
               else if \<not> writable_dir (lookup w (butlast ocp))
                       \<or> \<not> writable_dir (lookup w (butlast ncp)) then (False, w)
               else if lookup w ncp \<noteq> None \<and>
                       (is_dir_obj (Some ob) \<noteq> is_dir_obj (lookup w ncp) \<or> children w ncp \<noteq> [])
                    then (False, w)
               else (True, w\<lparr>files := map (\<lambda>(q, o'). (rekey ocp ncp q, o'))
                                         (filter (\<lambda>(q, _). q \<noteq> ncp) (files w))\<rparr>))
      | _ \<Rightarrow> (False, w))"


section \<open>The backend\<close>

subsection \<open>Listing a directory\<close>

text \<open>
  \<^verbatim>\<open>FileInfo\<close> (backend.h). A pointer field is \<open>None\<close> while it is \<^verbatim>\<open>NULL\<close>, as \<^verbatim>\<open>g_new0\<close>
  leaves it. \<open>fi_modified\<close> holds the \<^verbatim>\<open>st_mtime\<close> that \<^verbatim>\<open>strftime\<close> renders and
  \<open>fi_permissions\<close> the mode that \<^verbatim>\<open>strmode\<close> renders; the two renderings are not modelled.
\<close>

record FileInfo =
  fi_name :: string
  fi_path :: string
  fi_type :: "string option"
  fi_size_formatted :: "string option"
  fi_modified :: "int option"
  fi_permissions :: "bool option"
  fi_is_dir :: bool

text \<open>The body of the \<^verbatim>\<open>readdir\<close> loop of \<^verbatim>\<open>get_directory_contents\<close> for one name
  (backend.c, lines 88-112).\<close>

definition file_info_of :: "world \<Rightarrow> string \<Rightarrow> string \<Rightarrow> FileInfo" where
  "file_info_of w path d_name =
     (let info = \<lparr>fi_name = d_name, fi_path = g_build_filename path d_name, fi_type = None,
                  fi_size_formatted = None, fi_modified = None, fi_permissions = None,
                  fi_is_dir = False\<rparr>
      in case sys_stat w (fi_path info) of
           Some st \<Rightarrow>
             info\<lparr>fi_is_dir := st_isdir st,
                  fi_type := Some (if st_isdir st then ''Directory'' else ''File''),
                  fi_size_formatted := Some (if st_isdir st then [] else format_size (st_size st)),
                  fi_modified := Some (st_mtime st),
                  fi_permissions := Some (st_wmode st)\<rparr>
         | None \<Rightarrow> info)"

text \<open>The loop (lines 82-115): \<^verbatim>\<open>.\<close> and \<^verbatim>\<open>..\<close> are skipped, every other name is
  appended.\<close>

fun readdir_loop :: "world \<Rightarrow> string \<Rightarrow> string list \<Rightarrow> FileInfo list \<Rightarrow> FileInfo list" where
  "readdir_loop w path [] list = list"
| "readdir_loop w path (d_name # rest) list =
     (if d_name = ''.'' \<or> d_name = ''..'' then readdir_loop w path rest list
      else readdir_loop w path rest (list @ [file_info_of w path d_name]))"

text \<open>\<^verbatim>\<open>get_directory_contents\<close> (lines 69-120). A \<^verbatim>\<open>GList*\<close> is a list, and \<^verbatim>\<open>NULL\<close> is
  the empty one.\<close>

definition get_directory_contents :: "world \<Rightarrow> string \<Rightarrow> FileInfo list" where
  "get_directory_contents w path =
     (case sys_opendir w path of None \<Rightarrow> [] | Some d \<Rightarrow> readdir_loop w path d [])"

subsection \<open>Creating and renaming\<close>

text \<open>\<^verbatim>\<open>create_directory_item\<close> (lines 142-150); the mode \<^verbatim>\<open>0755\<close> has the owner-write bit.\<close>

definition create_directory_item :: "world \<Rightarrow> string \<Rightarrow> string \<Rightarrow> bool \<times> world" where
  "create_directory_item w parent_dir dir_name =
     (let path = g_build_filename parent_dir dir_name in sys_mkdir w path True)"

text \<open>\<^verbatim>\<open>create_file_item\<close> (lines 155-164).\<close>

definition create_file_item :: "world \<Rightarrow> string \<Rightarrow> string \<Rightarrow> bool \<times> world" where
  "create_file_item w parent_dir file_name =
     (let path = g_build_filename parent_dir file_name
      in case sys_open w path [O_WRONLY, O_CREAT, O_EXCL] of
           (Some fd, w') \<Rightarrow> (True, w')
         | (None, w') \<Rightarrow> (False, w'))"

text \<open>\<^verbatim>\<open>rename_item\<close> (lines 169-177).\<close>

definition rename_item :: "world \<Rightarrow> string \<Rightarrow> string \<Rightarrow> bool \<times> world" where
  "rename_item w old_path new_name =
     (let dir = g_path_get_dirname old_path;
          new_path = g_build_filename dir new_name
      in sys_rename w old_path new_path)"

text \<open>Whether a path string names an existing entry, the entry itself when it is a link.\<close>

definition entry_exists :: "world \<Rightarrow> string \<Rightarrow> bool" where
  "entry_exists w s = (case lnamei w s of Some cp \<Rightarrow> lookup w cp \<noteq> None | None \<Rightarrow> False)"

subsection \<open>Deleting\<close>


type_synonym ftw_call = "string \<times> world \<times> int"









text \<open>
  What the calls of a walk are checked for: no call of \<^verbatim>\<open>remove\<close> was made on a directory
  that still had entries at that moment.
\<close>

definition never_on_nonempty :: "ftw_call list \<Rightarrow> bool" where
  "never_on_nonempty calls = (\<forall>(f, wb, rc) \<in> set calls. fst (sys_remove wb f) \<noteq> ENOTEMPTY)"


text \<open>
  What the calls of a walk look like when it stops at the first call that fails: every call
  but the last returned 0, every call returned what \<open>fn\<close> returns, and the last call
  returned the result of the walk.
\<close>

definition stops_at_failure :: "(world \<Rightarrow> string \<Rightarrow> int \<times> world) \<Rightarrow> ftw_call list \<Rightarrow> int \<Rightarrow> bool" where
  "stops_at_failure fn calls rc =
     ((\<forall>c \<in> set (butlast calls). snd (snd c) = 0) \<and>
      (\<forall>(f, wb, r) \<in> set calls. r = fst (fn wb f)) \<and>
      (calls \<noteq> [] \<longrightarrow> snd (snd (last calls)) = rc))"

subsection \<open>Copying\<close>

text \<open>
  The read and write loop of \<^verbatim>\<open>copy_file_content\<close> (backend.c, lines 216-225), from the
  read offset \<open>off\<close>: it ends with \<^verbatim>\<open>FALSE\<close> at a short write and with \<^verbatim>\<open>nread == 0\<close>
  otherwise. Every round that goes on has written at least one byte, so the loop ends when
  the volume is full at the latest.
\<close>

function copy_loop :: "world \<Rightarrow> string list \<Rightarrow> nat \<Rightarrow> string list \<Rightarrow> bool \<times> world" where
  "copy_loop w src_fd off dst_fd =
     (case sys_read w src_fd off 8192 of
        None \<Rightarrow> (False, w)
      | Some buf \<Rightarrow>
          if buf = [] then (True, w)
          else (case sys_write w dst_fd buf of
                  (n, w') \<Rightarrow>
                    if n \<noteq> int (length buf) then (False, w')
                    else copy_loop w' src_fd (off + length buf) dst_fd))"
  by pat_completeness auto
termination
  apply (relation "measure (\<lambda>(w, src_fd, off, dst_fd). space w)")
   apply simp
  apply (auto simp: sys_write_def Let_def min_def split: option.splits obj.splits if_splits)
  done

declare copy_loop.simps [simp del]

text \<open>\<^verbatim>\<open>copy_file_content\<close> (lines 201-226).\<close>

definition copy_file_content :: "world \<Rightarrow> string \<Rightarrow> string \<Rightarrow> bool \<times> world" where
  "copy_file_content w src dst =
     (case sys_open w src [O_RDONLY] of
        (None, w1) \<Rightarrow> (False, w1)
      | (Some src_fd, w1) \<Rightarrow>
          (case sys_open w1 dst [O_WRONLY, O_CREAT, O_TRUNC] of
             (None, w2) \<Rightarrow> (False, w2)
           | (Some dst_fd, w2) \<Rightarrow> copy_loop w2 src_fd 0 dst_fd))"

text \<open>
  \<^verbatim>\<open>copy_item\<close> (lines 232-259). The results of \<^verbatim>\<open>stat\<close> and \<^verbatim>\<open>mkdir\<close> are not looked
  at. When \<^verbatim>\<open>stat\<close> fails the buffer \<^verbatim>\<open>st\<close> keeps what it held before, which the program
  never set: \<open>st0\<close> stands for that content, and every statement about \<^verbatim>\<open>copy_item\<close> holds
  for every \<open>st0\<close>. The recursion follows the file system as it finds it, so it takes fuel, one
  unit for every level; \<open>None\<close> is a copy that ran out. Beside the result and the new file
  system, the model returns the copies of the direct children that were started, in order,
  each with the path given to it and what it returned.
\<close>

fun copy_item :: "stat \<Rightarrow> nat \<Rightarrow> world \<Rightarrow> string \<Rightarrow> string
      \<Rightarrow> (bool \<times> world \<times> (string \<times> bool) list) option"
  and copy_children :: "stat \<Rightarrow> nat \<Rightarrow> world \<Rightarrow> string \<Rightarrow> string \<Rightarrow> string list \<Rightarrow> bool
      \<Rightarrow> (bool \<times> world \<times> (string \<times> bool) list) option" where
  "copy_item st0 0 w src_path dest_dir = None"
| "copy_item st0 (Suc n) w src_path dest_dir =
     (let base = g_path_get_basename src_path;
          dest_path = g_build_filename dest_dir base;
          st = (case sys_stat w src_path of Some s \<Rightarrow> s | None \<Rightarrow> st0)
      in if st_isdir st then
           (case sys_mkdir w dest_path (st_wmode st) of
              (created, w1) \<Rightarrow>
                (case sys_opendir w1 src_path of
                   None \<Rightarrow> Some (True, w1, [])
                 | Some names \<Rightarrow> copy_children st0 n w1 src_path dest_path names True))
         else (case copy_file_content w src_path dest_path of (r, w') \<Rightarrow> Some (r, w', [])))"
| "copy_children st0 n w src_path dest_path [] result = Some (result, w, [])"
| "copy_children st0 n w src_path dest_path (d_name # rest) result =
     (if d_name = ''.'' \<or> d_name = ''..'' then copy_children st0 n w src_path dest_path rest result
      else let new_src = g_build_filename src_path d_name
           in case copy_item st0 n w new_src dest_path of
                None \<Rightarrow> None
              | Some (r, w', _) \<Rightarrow>
                  (case copy_children st0 n w' src_path dest_path rest
                          (if \<not> r then False else result) of
                     None \<Rightarrow> None
                   | Some (r', w'', started) \<Rightarrow> Some (r', w'', (new_src, r) # started)))"

subsection \<open>Archiving\<close>

text \<open>
  The archive library (libzip), as far as the backend uses it. An archive being built is the
  list of its entries, each with its name, whether it is a directory entry, and for a file
  entry the path its content is read from. The content is read when the archive is closed;
  the bytes of the archive file are not modelled, \<^verbatim>\<open>zip_close\<close> only says whether writing it
  succeeds. \<^verbatim>\<open>zip_dir_add\<close> ends the name with a separator if it does not end with one; both
  adding calls refuse a name the archive already has and then leave the archive as it is
  (the backend does not look at what they return). Opening is taken to fail when the path is
  empty or names a directory; closing, when a source is not a readable file or the archive
  cannot be created in its directory.
\<close>

record zip_entry =
  ze_name :: string
  ze_is_dir :: bool
  ze_source :: "string option"

type_synonym zip_t = "zip_entry list"

definition zip_open :: "world \<Rightarrow> string \<Rightarrow> zip_t option" where
  "zip_open w path =
     (if path = [] then None
      else case namei True w path of
             Some cp \<Rightarrow> if is_dir_obj (lookup w cp) then None else Some []
           | None \<Rightarrow> Some [])"

definition zip_dir_add :: "zip_t \<Rightarrow> string \<Rightarrow> zip_t" where
  "zip_dir_add archive name =
     (let nm = (if ends_with_sep name then name else name @ ''/'')
      in if name = [] \<or> nm \<in> set (map ze_name archive) then archive
         else archive @ [\<lparr>ze_name = nm, ze_is_dir = True, ze_source = None\<rparr>])"

definition zip_source_file :: "string \<Rightarrow> string option" where
  "zip_source_file fname = Some fname"

definition zip_file_add :: "zip_t \<Rightarrow> string \<Rightarrow> string option \<Rightarrow> zip_t" where
  "zip_file_add archive name source =
     (if source = None \<or> name \<in> set (map ze_name archive) then archive
      else archive @ [\<lparr>ze_name = name, ze_is_dir = False, ze_source = source\<rparr>])"

definition readable_file :: "world \<Rightarrow> string \<Rightarrow> bool" where
  "readable_file w f =
     (case namei True w f of
        Some cp \<Rightarrow> (case lookup w cp of Some (FileObj d) \<Rightarrow> True | _ \<Rightarrow> False)
      | None \<Rightarrow> False)"

definition zip_close :: "world \<Rightarrow> zip_t \<Rightarrow> string \<Rightarrow> bool" where
  "zip_close w archive path =
     (list_all (\<lambda>e. case ze_source e of None \<Rightarrow> True | Some f \<Rightarrow> readable_file w f) archive \<and>
      (case namei True w path of
         Some cp \<Rightarrow> cp \<noteq> [] \<and> writable_dir (lookup w (butlast cp)) \<and> \<not> is_dir_obj (lookup w cp)
       | None \<Rightarrow> False))"

text \<open>
  \<^verbatim>\<open>add_to_zip_recursive\<close> (backend.c, lines 277-302). As in \<^verbatim>\<open>copy_item\<close>, the result of
  \<^verbatim>\<open>stat\<close> is not looked at and \<open>st0\<close> is what the buffer holds when \<^verbatim>\<open>stat\<close> fails; the
  recursion takes fuel.
\<close>

fun add_to_zip_recursive :: "stat \<Rightarrow> nat \<Rightarrow> world \<Rightarrow> zip_t \<Rightarrow> string \<Rightarrow> string \<Rightarrow> zip_t option"
  and add_to_zip_entries :: "stat \<Rightarrow> nat \<Rightarrow> world \<Rightarrow> zip_t \<Rightarrow> string \<Rightarrow> string \<Rightarrow> string list
      \<Rightarrow> zip_t option" where
  "add_to_zip_recursive st0 0 w archive base_path_in_fs parent_path_in_zip = None"
| "add_to_zip_recursive st0 (Suc n) w archive base_path_in_fs parent_path_in_zip =
     (case sys_opendir w base_path_in_fs of
        None \<Rightarrow> Some archive
      | Some names \<Rightarrow> add_to_zip_entries st0 n w archive base_path_in_fs parent_path_in_zip names)"
| "add_to_zip_entries st0 n w archive base_path_in_fs parent_path_in_zip [] = Some archive"
| "add_to_zip_entries st0 n w archive base_path_in_fs parent_path_in_zip (d_name # rest) =
     (if d_name = ''.'' \<or> d_name = ''..''
      then add_to_zip_entries st0 n w archive base_path_in_fs parent_path_in_zip rest
      else let full_fs_path = g_build_filename base_path_in_fs d_name;
               full_zip_path = g_strconcat parent_path_in_zip d_name;
               st = (case sys_stat w full_fs_path of Some s \<Rightarrow> s | None \<Rightarrow> st0)
           in if st_isdir st then
                (let zip1 = zip_dir_add archive full_zip_path;
                     zip_dir_path = g_strconcat full_zip_path ''/''
                 in case add_to_zip_recursive st0 n w zip1 full_fs_path zip_dir_path of
                      None \<Rightarrow> None
                    | Some zip2 \<Rightarrow>
                        add_to_zip_entries st0 n w zip2 base_path_in_fs parent_path_in_zip rest)
              else
                (let source = zip_source_file full_fs_path;
                     zip1 = zip_file_add archive full_zip_path source
                 in add_to_zip_entries st0 n w zip1 base_path_in_fs parent_path_in_zip rest))"

text \<open>\<^verbatim>\<open>zip_item\<close> (lines 307-329), with the entries of the archive beside its result.\<close>

definition zip_item :: "stat \<Rightarrow> nat \<Rightarrow> world \<Rightarrow> string \<Rightarrow> string \<Rightarrow> (bool \<times> zip_t) option" where
  "zip_item st0 fuel w src_path dest_zip_path =
     (case zip_open w dest_zip_path of
        None \<Rightarrow> Some (False, [])
      | Some archive \<Rightarrow>
          (let st = (case sys_stat w src_path of Some s \<Rightarrow> s | None \<Rightarrow> st0)
           in if st_isdir st then
                (let base = g_path_get_basename src_path;
                     base_zip_path = g_strconcat base ''/'';
                     zip1 = zip_dir_add archive base
                 in case add_to_zip_recursive st0 fuel w zip1 src_path base_zip_path of
                      None \<Rightarrow> None
                    | Some zip2 \<Rightarrow> Some (zip_close w zip2 dest_zip_path, zip2))
              else
                (let source = zip_source_file src_path;
                     zip1 = zip_file_add archive (g_path_get_basename src_path) source
                 in Some (zip_close w zip1 dest_zip_path, zip1))))"

text \<open>
  The relative path that the pieces \<open>ds\<close> spell inside an archive, and the path they lead to
  in the file system from a start path.
\<close>

fun zip_rel :: "string list \<Rightarrow> string" where
  "zip_rel [] = []"
| "zip_rel [d] = d"
| "zip_rel (d # ds) = d @ ''/'' @ zip_rel ds"

definition fs_rel :: "string \<Rightarrow> string list \<Rightarrow> string" where
  "fs_rel start ds = foldl g_build_filename start ds"

section \<open>Example file systems\<close>

text \<open>
  A directory \<^verbatim>\<open>/d\<close> with a file, a dangling link and a link to the file, and an empty
  directory \<^verbatim>\<open>/e\<close>.
\<close>

definition w_ex :: world where
  "w_ex = \<lparr>files = [([], DirObj True), ([''d''], DirObj True), ([''d'', ''ok''], FileObj ''hello''),
            ([''d'', ''bad''], LinkObj ''/nowhere''), ([''d'', ''lnk''], LinkObj ''../d/ok''),
            ([''e''], DirObj True)],
          cwd = [], space = 100, mtime = (\<lambda>_. 0)\<rparr>"



text \<open>
  A tree \<^verbatim>\<open>/src\<close> with a file and a directory holding a file; an empty directory \<^verbatim>\<open>/dst\<close>;
  an empty directory \<^verbatim>\<open>/empty\<close>; a directory \<^verbatim>\<open>/taken\<close> in which the name \<^verbatim>\<open>empty\<close>
  is a file; and a directory \<^verbatim>\<open>/merge\<close> that already has a directory \<^verbatim>\<open>src\<close>, in which the
  name \<^verbatim>\<open>a.txt\<close> is a directory.
\<close>

definition w_copy :: world where
  "w_copy = \<lparr>files = [([], DirObj True), ([''src''], DirObj True),
               ([''src'', ''a.txt''], FileObj ''alpha''), ([''src'', ''sub''], DirObj True),
               ([''src'', ''sub'', ''b.txt''], FileObj ''beta''), ([''dst''], DirObj True),
               ([''empty''], DirObj True), ([''taken''], DirObj True),
               ([''taken'', ''empty''], FileObj ''old''), ([''merge''], DirObj True),
               ([''merge'', ''src''], DirObj True), ([''merge'', ''src'', ''a.txt''], DirObj True)],
             cwd = [], space = 100, mtime = (\<lambda>_. 0)\<rparr>"

text \<open>The content of a \<^verbatim>\<open>struct stat\<close> that was never set, for the examples.\<close>

definition st_unset :: stat where
  "st_unset = \<lparr>st_isdir = False, st_size = 0, st_mtime = 0, st_wmode = False\<rparr>"

text \<open>The tree \<^verbatim>\<open>root/{a.txt, sub/b.txt}\<close>, in \<^verbatim>\<open>/home/u\<close>.\<close>

definition w_zip :: world where
  "w_zip = \<lparr>files = [([], DirObj True), ([''home''], DirObj True), ([''home'', ''u''], DirObj True),
              ([''home'', ''u'', ''root''], DirObj True),
              ([''home'', ''u'', ''root'', ''a.txt''], FileObj ''alpha''),
              ([''home'', ''u'', ''root'', ''sub''], DirObj True),
              ([''home'', ''u'', ''root'', ''sub'', ''b.txt''], FileObj ''beta'')],
            cwd = [''home'', ''u''], space = 100, mtime = (\<lambda>_. 0)\<rparr>"

section \<open>Properties\<close>

subsection \<open>Size formatting\<close>


lemma bitlen_le: "bitlen n \<le> k \<longleftrightarrow> n < 2 ^ k"
proof (induction n arbitrary: k rule: bitlen.induct)
  case (1 n)
  show ?case
  proof (cases "n \<le> 0")
    case True
    have "(0::int) < 2 ^ k" by simp
    with True have "n < 2 ^ k" by linarith
    then show ?thesis using True by (simp add: bitlen.simps)
  next
    case False
    show ?thesis
    proof (cases k)
      case 0
      with False show ?thesis by (simp add: bitlen.simps)
    next
      case (Suc j)
      have "bitlen n \<le> Suc j \<longleftrightarrow> bitlen (n div 2) \<le> j"
        using False by (simp add: bitlen.simps[of n])
      also have "\<dots> \<longleftrightarrow> n div 2 < 2 ^ j" using 1 False by simp
      also have "\<dots> \<longleftrightarrow> n < 2 ^ Suc j" by auto
      finally show ?thesis using Suc by simp
    qed
  qed
qed

lemma gdouble_exact: "\<bar>n\<bar> < 2 ^ 53 \<Longrightarrow> gdouble_of_off_t n = n"
proof -
  assume a: "\<bar>n\<bar> < 2 ^ 53"
  then have "bitlen \<bar>n\<bar> \<le> 53" by (simp only: bitlen_le)
  then have e: "bitlen \<bar>n\<bar> - 53 = 0" by simp
  show ?thesis
    unfolding gdouble_of_off_t_def Let_def e
    by (simp add: round_half_even_def)
qed

lemma bitlen_gt: "k < bitlen n \<longleftrightarrow> 2 ^ k \<le> n"
  using bitlen_le[of n k] by auto

lemma round_half_even_near:
  assumes "0 < b"
  shows "2 * \<bar>a - b * round_half_even a b\<bar> \<le> b"
proof -
  define q where "q = a div b"
  define r where "r = a mod b"
  have m: "a = b * q + r" by (simp add: q_def r_def)
  have r: "0 \<le> r" "r < b" using assms by (simp_all add: r_def)
  have e: "round_half_even a b = (if 2 * r < b then q else if b < 2 * r then q + 1 else if even q then q else q + 1)"
    by (simp add: round_half_even_def Let_def q_def r_def)
  have 1: "a - b * q = r" using m by simp
  have 2: "a - b * (q + 1) = r - b" using m by (simp add: algebra_simps)
  show ?thesis
    unfolding e using r by (auto simp: 1 2)
qed

text \<open>The cast to a double changes a size by at most its \<open>2 ^ 53\<close>th part.\<close>

lemma gdouble_near:
  assumes "0 \<le> n"
  shows "2 ^ 53 * \<bar>gdouble_of_off_t n - n\<bar> \<le> n"
proof (cases "bitlen n \<le> 53")
  case True
  then have "n < 2 ^ 53" by (simp only: bitlen_le)
  then have "gdouble_of_off_t n = n" using assms by (intro gdouble_exact) simp
  then show ?thesis using assms by simp
next
  case False
  define e where "e = bitlen n - 53"
  have "e + 52 < bitlen n" using False by (simp add: e_def)
  then have lo: "2 ^ (e + 52) \<le> n" by (simp only: bitlen_gt)
  have g: "gdouble_of_off_t n = 2 ^ e * round_half_even n (2 ^ e)"
    using assms by (simp add: gdouble_of_off_t_def Let_def e_def)
  have "2 * \<bar>n - 2 ^ e * round_half_even n (2 ^ e)\<bar> \<le> 2 ^ e"
    by (rule round_half_even_near) simp
  then have "2 * \<bar>gdouble_of_off_t n - n\<bar> \<le> 2 ^ e" by (simp add: g abs_minus_commute)
  then have "2 ^ 52 * (2 * \<bar>gdouble_of_off_t n - n\<bar>) \<le> 2 ^ 52 * 2 ^ e"
    by (rule mult_left_mono) simp
  also have "\<dots> = 2 ^ (e + 52)" by (simp add: power_add)
  finally show ?thesis using lo by simp
qed

lemma readdir_loop_names:
  "map fi_name (readdir_loop w p ds acc) = map fi_name acc @ filter (\<lambda>n. n \<noteq> ''.'' \<and> n \<noteq> ''..'') ds"
  by (induction ds arbitrary: acc) (auto simp: file_info_of_def Let_def split: option.splits)

lemma readdir_loop_set:
  "set (readdir_loop w p ds acc) = set acc \<union> file_info_of w p ` {n \<in> set ds. n \<noteq> ''.'' \<and> n \<noteq> ''..''}"
  by (induction ds arbitrary: acc) auto

lemma file_info_of_dir_size: "fi_is_dir (file_info_of w p n) \<Longrightarrow> fi_size_formatted (file_info_of w p n) = Some []"
  by (auto simp: file_info_of_def Let_def split: option.splits)

lemma file_info_of_nostat:
  "sys_stat w (g_build_filename p n) = None \<Longrightarrow>
     file_info_of w p n = \<lparr>fi_name = n, fi_path = g_build_filename p n, fi_type = None,
                  fi_size_formatted = None, fi_modified = None, fi_permissions = None,
                  fi_is_dir = False\<rparr>"
  by (auto simp: file_info_of_def Let_def split: option.splits)

text \<open>
  Claim C8, as stated, fails for large sizes. The size 2922003374667464703 has more than 53
  bits: the cast to a double rounds it up by one, to 2922003374667464704, and \<^verbatim>\<open>%.1f\<close> of
  that double divided by \<open>1024 * 1024\<close> prints \<^verbatim>\<open>2786639570872.8 MB\<close>, while the size
  divided by \<open>1024 * 1024\<close> lies between 2786639570872.7 and 2786639570872.75: one decimal
  place of it is \<^verbatim>\<open>.7\<close>, rounded or truncated.
\<close>

theorem format_size_mb_not_nearest_counterexample:
  "format_size 2922003374667464703 = ''2786639570872.8 MB'' \<and>
   (1024::int) * 1024 * 27866395708727 \<le> 10 * 2922003374667464703 \<and>
   (2::int) * (10 * 2922003374667464703) < 1024 * 1024 * (2 * 27866395708727 + 1) \<and>
   gdouble_of_off_t 2922003374667464703 = 2922003374667464704"
proof -
  have 1: "format_size 2922003374667464703 = ''2786639570872.8 MB''" by code_simp
  have 2: "gdouble_of_off_t 2922003374667464703 = 2922003374667464704" by code_simp
  show ?thesis using 1 2 by simp
qed

text \<open>
  Claim C8, amended. A size below 1024 is written as the integer with unit \<^verbatim>\<open>B\<close>; a size
  below \<open>1024 * 1024\<close> as the nearest number of tenths of \<open>n / 1024\<close> with unit \<^verbatim>\<open>KB\<close>; any
  larger size \<open>c\<close> with unit \<^verbatim>\<open>MB\<close>, never a larger unit. The number of tenths \<open>t\<close> printed
  for \<open>c\<close> is the nearest one to the double of \<open>c\<close> divided by \<open>1024 * 1024\<close>, and that
  double differs from \<open>c\<close> by at most \<open>c / 2 ^ 53\<close>: so \<open>t\<close> is the nearest number of
  tenths of \<open>c / (1024 * 1024)\<close> itself for every size below \<open>2 ^ 53\<close>, and is in every case
  within \<open>1 / 2 + 10 * c / 2 ^ 73\<close> tenths of it. Every directory entry of a listing has
  the empty size string. The witness evaluates 500, 2048 and 3145728 bytes to \<^verbatim>\<open>500 B\<close>,
  \<^verbatim>\<open>2.0 KB\<close> and \<^verbatim>\<open>3.0 MB\<close>.
\<close>

theorem format_size_units:
  assumes "a < 1024" and "1024 \<le> b" and "b < 1024 * 1024" and "1024 * 1024 \<le> c"
  shows "format_size a = show_int a @ '' B'' \<and>
         (\<exists>t. format_size b = fixed1 t @ '' KB'' \<and> 2 * \<bar>10 * b - 1024 * t\<bar> \<le> 1024) \<and>
         (\<exists>t. format_size c = fixed1 t @ '' MB'' \<and>
              2 * \<bar>10 * gdouble_of_off_t c - 1024 * 1024 * t\<bar> \<le> 1024 * 1024 \<and>
              2 ^ 53 * \<bar>gdouble_of_off_t c - c\<bar> \<le> c \<and>
              2 ^ 53 * (2 * \<bar>10 * c - 1024 * 1024 * t\<bar> - 1024 * 1024) \<le> 20 * c \<and>
              (c < 2 ^ 53 \<longrightarrow> 2 * \<bar>10 * c - 1024 * 1024 * t\<bar> \<le> 1024 * 1024)) \<and>
         (\<forall>e \<in> set (get_directory_contents w p). fi_is_dir e \<longrightarrow> fi_size_formatted e = Some [])"
proof (intro conjI)
  show "format_size a = show_int a @ '' B''" using assms(1) by (simp add: format_size_def)
next
  have "\<bar>b\<bar> < 2 ^ 53" using assms(2,3) by simp
  then have g: "gdouble_of_off_t b = b" by (rule gdouble_exact)
  have "format_size b = fixed1 (round_half_even (10 * b) 1024) @ '' KB''"
    using assms(2,3) by (simp add: format_size_def printf_1f_def g)
  moreover have "2 * \<bar>10 * b - 1024 * round_half_even (10 * b) 1024\<bar> \<le> 1024"
    by (rule round_half_even_near) simp
  ultimately show "\<exists>t. format_size b = fixed1 t @ '' KB'' \<and> 2 * \<bar>10 * b - 1024 * t\<bar> \<le> 1024"
    by blast
next
  define D where "D = gdouble_of_off_t c"
  define t where "t = round_half_even (10 * D) (1024 * 1024)"
  have c0: "0 \<le> c" using assms(4) by simp
  have f: "format_size c = fixed1 t @ '' MB''"
    using assms(4) by (simp add: format_size_def printf_1f_def t_def D_def)
  have n: "2 * \<bar>10 * D - 1024 * 1024 * t\<bar> \<le> 1024 * 1024"
    unfolding t_def by (rule round_half_even_near) simp
  have d: "2 ^ 53 * \<bar>D - c\<bar> \<le> c" unfolding D_def using c0 by (rule gdouble_near)
  have tri: "2 * \<bar>10 * c - 1024 * 1024 * t\<bar> \<le> 2 * \<bar>10 * D - 1024 * 1024 * t\<bar> + 20 * \<bar>D - c\<bar>"
    by (simp add: abs_if)
  have "2 * \<bar>10 * c - 1024 * 1024 * t\<bar> - 1024 * 1024 \<le> 20 * \<bar>D - c\<bar>"
    using tri n by linarith
  then have "2 ^ 53 * (2 * \<bar>10 * c - 1024 * 1024 * t\<bar> - 1024 * 1024) \<le> 2 ^ 53 * (20 * \<bar>D - c\<bar>)"
    by (rule mult_left_mono) simp
  also have "\<dots> = 20 * (2 ^ 53 * \<bar>D - c\<bar>)" by simp
  also have "\<dots> \<le> 20 * c" using d by simp
  finally have far: "2 ^ 53 * (2 * \<bar>10 * c - 1024 * 1024 * t\<bar> - 1024 * 1024) \<le> 20 * c" .
  have ex: "c < 2 ^ 53 \<longrightarrow> 2 * \<bar>10 * c - 1024 * 1024 * t\<bar> \<le> 1024 * 1024"
  proof
    assume "c < 2 ^ 53"
    then have "\<bar>c\<bar> < 2 ^ 53" using c0 by simp
    then have "D = c" unfolding D_def by (rule gdouble_exact)
    then show "2 * \<bar>10 * c - 1024 * 1024 * t\<bar> \<le> 1024 * 1024" using n by simp
  qed
  show "\<exists>t. format_size c = fixed1 t @ '' MB'' \<and>
              2 * \<bar>10 * gdouble_of_off_t c - 1024 * 1024 * t\<bar> \<le> 1024 * 1024 \<and>
              2 ^ 53 * \<bar>gdouble_of_off_t c - c\<bar> \<le> c \<and>
              2 ^ 53 * (2 * \<bar>10 * c - 1024 * 1024 * t\<bar> - 1024 * 1024) \<le> 20 * c \<and>
              (c < 2 ^ 53 \<longrightarrow> 2 * \<bar>10 * c - 1024 * 1024 * t\<bar> \<le> 1024 * 1024)"
    using f n d far ex unfolding D_def by blast
next
  show "\<forall>e \<in> set (get_directory_contents w p). fi_is_dir e \<longrightarrow> fi_size_formatted e = Some []"
    by (auto simp: get_directory_contents_def readdir_loop_set file_info_of_dir_size split: option.splits)
qed

theorem format_size_units_witness:
  "(500::int) < 1024 \<and> (1024::int) \<le> 2048 \<and> (2048::int) < 1024 * 1024 \<and>
   (1024::int) * 1024 \<le> 3145728 \<and>
   format_size 500 = show_int 500 @ '' B'' \<and>
   (\<exists>t. format_size 2048 = fixed1 t @ '' KB'' \<and> 2 * \<bar>10 * 2048 - 1024 * t\<bar> \<le> 1024) \<and>
   (\<exists>t. format_size 3145728 = fixed1 t @ '' MB'' \<and>
        2 * \<bar>10 * gdouble_of_off_t 3145728 - 1024 * 1024 * t\<bar> \<le> 1024 * 1024 \<and>
        2 * \<bar>10 * 3145728 - 1024 * 1024 * t\<bar> \<le> 1024 * 1024) \<and>
   format_size 500 = ''500 B'' \<and> format_size 2048 = ''2.0 KB'' \<and>
   format_size 3145728 = ''3.0 MB'' \<and>
   map fi_name (filter fi_is_dir (get_directory_contents w_ex ''/'')) = [''d'', ''e''] \<and>
   list_all (\<lambda>e. fi_is_dir e \<longrightarrow> fi_size_formatted e = Some [])
     (get_directory_contents w_ex ''/'')"
proof -
  have ex: "format_size 500 = ''500 B'' \<and> format_size 2048 = ''2.0 KB'' \<and>
      format_size 3145728 = ''3.0 MB''"
    by code_simp
  have d: "map fi_name (filter fi_is_dir (get_directory_contents w_ex ''/'')) = [''d'', ''e'']"
    by code_simp
  have h: "(500::int) < 1024" "(1024::int) \<le> 2048" "(2048::int) < 1024 * 1024"
    "(1024::int) * 1024 \<le> 3145728"
    by simp_all
  have s: "(3145728::int) < 2 ^ 53" by simp
  note t = format_size_units[OF h, of w_ex "''/''"]
  from t have 1: "format_size 500 = show_int 500 @ '' B''" by blast
  from t have 2: "\<exists>t. format_size 2048 = fixed1 t @ '' KB'' \<and> 2 * \<bar>10 * 2048 - 1024 * t\<bar> \<le> 1024"
    by blast
  from t s have 3: "\<exists>t. format_size 3145728 = fixed1 t @ '' MB'' \<and>
        2 * \<bar>10 * gdouble_of_off_t 3145728 - 1024 * 1024 * t\<bar> \<le> 1024 * 1024 \<and>
        2 * \<bar>10 * 3145728 - 1024 * 1024 * t\<bar> \<le> 1024 * 1024"
    by blast
  from t have 4: "list_all (\<lambda>e. fi_is_dir e \<longrightarrow> fi_size_formatted e = Some [])
     (get_directory_contents w_ex ''/'')"
    unfolding list_all_iff by blast
  show ?thesis using ex d h 1 2 3 4 by blast
qed

subsection \<open>Listing\<close>

text \<open>
  Claim C1 as stated fails: in \<open>w_ex\<close> the directory \<^verbatim>\<open>/d\<close> opens, \<^verbatim>\<open>stat\<close> fails for its child
  \<^verbatim>\<open>bad\<close> (a dangling link), and the listing still has an entry named \<^verbatim>\<open>bad\<close>.
\<close>

theorem listing_keeps_unreadable_child_counterexample:
  "sys_opendir w_ex ''/d'' = Some [''.'', ''..'', ''ok'', ''bad'', ''lnk''] \<and>
   sys_stat w_ex (g_build_filename ''/d'' ''bad'') = None \<and>
   ''bad'' \<in> set (map fi_name (get_directory_contents w_ex ''/d''))"
  by code_simp

text \<open>
  Claim C1, amended. When the directory opens, the listing has one entry for every name of
  the stream other than \<^verbatim>\<open>.\<close> and \<^verbatim>\<open>..\<close>, in the order of the stream, whether or not
  \<^verbatim>\<open>stat\<close> succeeds for it; a child whose \<^verbatim>\<open>stat\<close> fails is listed with its name and path
  and with every other field \<^verbatim>\<open>NULL\<close> or false.
\<close>

theorem listing_keeps_every_child:
  assumes "sys_opendir w path = Some d"
  shows "map fi_name (get_directory_contents w path) = filter (\<lambda>n. n \<noteq> ''.'' \<and> n \<noteq> ''..'') d \<and>
         (\<forall>c \<in> set d. c \<noteq> ''.'' \<and> c \<noteq> ''..'' \<and> sys_stat w (g_build_filename path c) = None \<longrightarrow>
            \<lparr>fi_name = c, fi_path = g_build_filename path c, fi_type = None,
              fi_size_formatted = None, fi_modified = None, fi_permissions = None,
              fi_is_dir = False\<rparr> \<in> set (get_directory_contents w path))"
proof -
  have g: "get_directory_contents w path = readdir_loop w path d []"
    using assms by (simp add: get_directory_contents_def)
  show ?thesis
    unfolding g by (auto simp: readdir_loop_names readdir_loop_set file_info_of_nostat[symmetric])
qed

theorem listing_keeps_every_child_witness:
  "sys_opendir w_ex ''/d'' = Some [''.'', ''..'', ''ok'', ''bad'', ''lnk''] \<and>
   ''bad'' \<in> set [''.'', ''..'', ''ok'', ''bad'', ''lnk''] \<and>
   sys_stat w_ex (g_build_filename ''/d'' ''bad'') = None \<and>
   map fi_name (get_directory_contents w_ex ''/d'') = [''ok'', ''bad'', ''lnk''] \<and>
   \<lparr>fi_name = ''bad'', fi_path = g_build_filename ''/d'' ''bad'', fi_type = None,
     fi_size_formatted = None, fi_modified = None, fi_permissions = None,
     fi_is_dir = False\<rparr> \<in> set (get_directory_contents w_ex ''/d'')"
proof -
  have o: "sys_opendir w_ex ''/d'' = Some [''.'', ''..'', ''ok'', ''bad'', ''lnk'']" by code_simp
  have s: "sys_stat w_ex (g_build_filename ''/d'' ''bad'') = None" by code_simp
  show ?thesis using listing_keeps_every_child[OF o] o s by simp
qed

text \<open>
  Claim C9 as stated fails: in \<open>w_ex\<close> the path \<^verbatim>\<open>/x\<close> cannot be opened, \<^verbatim>\<open>/e\<close> is an empty
  directory that opens, and \<^verbatim>\<open>get_directory_contents\<close> returns the same value for both.
\<close>

theorem open_failure_is_empty_listing_counterexample:
  "sys_opendir w_ex ''/x'' = None \<and> sys_opendir w_ex ''/e'' = Some [''.'', ''..''] \<and>
   get_directory_contents w_ex ''/x'' = get_directory_contents w_ex ''/e''"
  by code_simp

text \<open>
  Claim C9, amended. When the directory cannot be opened, \<^verbatim>\<open>get_directory_contents\<close>
  returns \<^verbatim>\<open>NULL\<close>, the empty list, which is also what it returns for a directory that
  opens and has no entry other than \<^verbatim>\<open>.\<close> and \<^verbatim>\<open>..\<close>.
\<close>

theorem open_failure_returns_null:
  assumes "sys_opendir w p = None" and "sys_opendir w q = Some d"
    and "\<forall>n \<in> set d. n = ''.'' \<or> n = ''..''"
  shows "get_directory_contents w p = [] \<and> get_directory_contents w q = get_directory_contents w p"
proof -
  have "filter (\<lambda>n. n \<noteq> ''.'' \<and> n \<noteq> ''..'') d = []" using assms(3) by (auto simp: filter_empty_conv)
  then have "map fi_name (readdir_loop w q d []) = []" by (simp add: readdir_loop_names)
  then show ?thesis using assms(1,2) by (simp add: get_directory_contents_def)
qed

theorem open_failure_returns_null_witness:
  "sys_opendir w_ex ''/x'' = None \<and> sys_opendir w_ex ''/e'' = Some [''.'', ''..''] \<and>
   get_directory_contents w_ex ''/x'' = [] \<and>
   get_directory_contents w_ex ''/e'' = get_directory_contents w_ex ''/x''"
proof -
  have a: "sys_opendir w_ex ''/x'' = None" by code_simp
  have b: "sys_opendir w_ex ''/e'' = Some [''.'', ''..'']" by code_simp
  have c: "\<forall>n \<in> set [''.'', ''..'']. n = ''.'' \<or> n = ''..''" by simp
  show ?thesis using open_failure_returns_null[OF a b c] a b by simp
qed


subsection \<open>Exclusive creation\<close>


lemma follow_target_upd:
  assumes "fs cp = None" and "fs' cp = Some v" and "\<forall>t. v \<noteq> LinkObj t" and "\<forall>q. q \<noteq> cp \<longrightarrow> fs' q = fs q"
  shows "follow_target fs' fl cur c cs = follow_target fs fl cur c cs"
  using assms by (cases "cur @ [c] = cp") (auto simp: follow_target_def split: option.splits obj.splits)

lemma walk_stable:
  assumes "walk k fs fl cur cs = Some cp" and "fs cp = None" and "fs' cp = Some v"
    and "\<forall>t. v \<noteq> LinkObj t" and "\<forall>q. q \<noteq> cp \<longrightarrow> fs' q = fs q"
  shows "walk k fs' fl cur cs = Some cp"
  using assms
proof (induction k fs fl cur cs rule: walk.induct)
  case (1 k fs fl cur)
  then show ?case by simp
next
  case (2 k fs fl cur c cs)
  note p1 = "2.prems"(1) and fscp = "2.prems"(2) and rest = "2.prems"(2-5)
  from p1 have d: "is_dir_obj (fs cur)" by (simp split: if_splits)
  have ne: "cur \<noteq> cp" using d fscp by (auto simp: is_dir_obj_def)
  then have d': "is_dir_obj (fs' cur)" using d rest by simp
  have ft: "follow_target fs' fl cur c cs = follow_target fs fl cur c cs"
    using rest by (rule follow_target_upd)
  show ?case
  proof (cases "c = ''.''")
    case True
    then show ?thesis using "2.IH"(1) p1 rest d d' by simp
  next
    case nd: False
    show ?thesis
    proof (cases "c = ''..''")
      case True
      then show ?thesis using "2.IH"(2) p1 rest d d' nd by simp
    next
      case ndd: False
      show ?thesis
      proof (cases "follow_target fs fl cur c cs")
        case None
        then have "walk k fs fl (cur @ [c]) cs = Some cp" using p1 d nd ndd by simp
        then have "walk k fs' fl (cur @ [c]) cs = Some cp"
          using "2.IH"(3) d nd ndd None rest by simp
        then show ?thesis using d' nd ndd None ft by simp
      next
        case (Some t)
        then obtain k' where k: "k = Suc k'" using p1 d nd ndd
          by (cases k) auto
        have "walk k' fs fl (if absolute t then [] else cur) (comps t @ cs) = Some cp"
          using p1 d nd ndd Some k by simp
        then have "walk k' fs' fl (if absolute t then [] else cur) (comps t @ cs) = Some cp"
          using "2.IH"(4)[OF _ nd ndd Some k _ rest] d by simp
        then show ?thesis using d' nd ndd Some ft k by simp
      qed
    qed
  qed
qed

lemma lookup_append_new:
  "lookup w cp = None \<Longrightarrow> lookup (w\<lparr>files := files w @ [(cp, v)]\<rparr>) q = (if q = cp then Some v else lookup w q)"
  by (auto simp: lookup_def map_of_append map_add_def split: option.splits)

lemma lnamei_created:
  assumes "lnamei w s = Some cp" and "lookup w cp = None" and "\<forall>t. v \<noteq> LinkObj t"
  shows "lnamei (w\<lparr>files := files w @ [(cp, v)]\<rparr>) s = Some cp"
proof -
  let ?w' = "w\<lparr>files := files w @ [(cp, v)]\<rparr>"
  from assms(1) have s: "s \<noteq> []" and wk: "walk SYMLOOP_MAX (lookup w) False (if absolute s then [] else cwd w) (comps s) = Some cp"
    by (auto simp: lnamei_def split: if_splits)
  have "walk SYMLOOP_MAX (lookup ?w') False (if absolute s then [] else cwd w) (comps s) = Some cp"
    by (rule walk_stable[OF wk assms(2) _ assms(3)]) (simp_all add: lookup_append_new[OF assms(2)])
  then show ?thesis using s by (auto simp: lnamei_def)
qed

lemma create_fails_on_existing:
  assumes "entry_exists w (g_build_filename parent nm)"
  shows "create_directory_item w parent nm = (False, w)"
    and "create_file_item w parent nm = (False, w)"
proof -
  from assms obtain cp where cp: "lnamei w (g_build_filename parent nm) = Some cp"
      "lookup w cp \<noteq> None"
    by (auto simp: entry_exists_def split: option.splits)
  show "create_directory_item w parent nm = (False, w)"
    using cp by (simp add: create_directory_item_def sys_mkdir_def)
  show "create_file_item w parent nm = (False, w)"
    using cp by (simp add: create_file_item_def sys_open_def)
qed

lemma created_directory_exists:
  assumes a: "create_directory_item w1 parent nm = (True, w2)"
  shows "entry_exists w2 (g_build_filename parent nm)"
proof -
  let ?p = "g_build_filename parent nm"
  from a obtain cp where cp: "lnamei w1 ?p = Some cp" "lookup w1 cp = None"
      and w2: "w2 = w1\<lparr>files := files w1 @ [(cp, DirObj True)]\<rparr>"
    by (auto simp: create_directory_item_def sys_mkdir_def Let_def split: option.splits if_splits)
  have "lnamei w2 ?p = Some cp" unfolding w2 using cp by (intro lnamei_created) auto
  moreover have "lookup w2 cp \<noteq> None" unfolding w2 by (simp add: lookup_append_new[OF cp(2)])
  ultimately show ?thesis by (simp add: entry_exists_def)
qed

lemma created_file_exists:
  assumes a: "create_file_item w1 parent nm = (True, w2)"
  shows "entry_exists w2 (g_build_filename parent nm)"
proof -
  let ?p = "g_build_filename parent nm"
  from a obtain cp where cp: "lnamei w1 ?p = Some cp" "lookup w1 cp = None"
      and w2: "w2 = w1\<lparr>files := files w1 @ [(cp, FileObj [])]\<rparr>"
    by (auto simp: create_file_item_def sys_open_def Let_def
        split: option.splits if_splits prod.splits)
  have "lnamei w2 ?p = Some cp" unfolding w2 using cp by (intro lnamei_created) auto
  moreover have "lookup w2 cp \<noteq> None" unfolding w2 by (simp add: lookup_append_new[OF cp(2)])
  ultimately show ?thesis by (simp add: entry_exists_def)
qed

text \<open>
  Claim C6. When the name built from the parent and the name already exists (as a file, a
  directory or a link, dangling or not), \<^verbatim>\<open>create_directory_item\<close> and
  \<^verbatim>\<open>create_file_item\<close> both return \<^verbatim>\<open>FALSE\<close> and leave the file system as it is. In
  particular, after a call that succeeded, the same call again returns \<^verbatim>\<open>FALSE\<close> and
  changes nothing.
\<close>

theorem create_is_exclusive:
  assumes "entry_exists w (g_build_filename parent nm)"
  shows "create_directory_item w parent nm = (False, w) \<and>
         create_file_item w parent nm = (False, w) \<and>
         (\<forall>w1 w2 p n. create_directory_item w1 p n = (True, w2) \<longrightarrow>
            create_directory_item w2 p n = (False, w2) \<and> create_file_item w2 p n = (False, w2)) \<and>
         (\<forall>w1 w2 p n. create_file_item w1 p n = (True, w2) \<longrightarrow>
            create_file_item w2 p n = (False, w2) \<and> create_directory_item w2 p n = (False, w2))"
  using create_fails_on_existing[OF assms]
    create_fails_on_existing[OF created_directory_exists]
    create_fails_on_existing[OF created_file_exists]
  by blast

theorem create_is_exclusive_witness:
  "entry_exists w_ex (g_build_filename ''/d'' ''ok'') \<and>
   create_directory_item w_ex ''/d'' ''ok'' = (False, w_ex) \<and>
   create_file_item w_ex ''/d'' ''ok'' = (False, w_ex) \<and>
   fst (create_directory_item w_ex ''/e'' ''proj'') \<and>
   create_directory_item (snd (create_directory_item w_ex ''/e'' ''proj'')) ''/e'' ''proj''
     = (False, snd (create_directory_item w_ex ''/e'' ''proj'')) \<and>
   fst (create_file_item w_ex ''/e'' ''readme.txt'') \<and>
   create_file_item (snd (create_file_item w_ex ''/e'' ''readme.txt'')) ''/e'' ''readme.txt''
     = (False, snd (create_file_item w_ex ''/e'' ''readme.txt''))"
proof -
  have e: "entry_exists w_ex (g_build_filename ''/d'' ''ok'')" by code_simp
  have d: "fst (create_directory_item w_ex ''/e'' ''proj'')" by code_simp
  have f: "fst (create_file_item w_ex ''/e'' ''readme.txt'')" by code_simp
  from d have d': "create_directory_item w_ex ''/e'' ''proj''
      = (True, snd (create_directory_item w_ex ''/e'' ''proj''))"
    by (metis prod.collapse)
  from f have f': "create_file_item w_ex ''/e'' ''readme.txt''
      = (True, snd (create_file_item w_ex ''/e'' ''readme.txt''))"
    by (metis prod.collapse)
  note t = create_is_exclusive[OF e]
  show ?thesis using t e d f d' f' by blast
qed

subsection \<open>Path strings\<close>

lemma split_sep_ne [simp]: "split_sep s \<noteq> []"
  by (induction s) (auto split: list.splits)

lemma split_sep_append: "split_sep (a @ CHR ''/'' # b) = split_sep a @ split_sep b"
  by (induction a) (auto simp: is_sep_def split: list.splits)

lemma split_sep_nosep: "\<forall>c \<in> set s. \<not> is_sep c \<Longrightarrow> split_sep s = [s]"
  by (induction s) auto

lemma comps_Nil [simp]: "comps [] = []"
  by (simp add: comps_def)

lemma comps_append_sep: "comps (a @ CHR ''/'' # b) = comps a @ comps b"
  by (simp add: comps_def split_sep_append)

lemma comps_nosep: "s \<noteq> [] \<Longrightarrow> \<forall>c \<in> set s. \<not> is_sep c \<Longrightarrow> comps s = [s]"
  by (simp add: comps_def split_sep_nosep)

lemma comps_plain: "plain_name n \<Longrightarrow> comps n = [n]"
  by (simp add: comps_nosep plain_name_def)

lemma comps_Cons_sep: "is_sep c \<Longrightarrow> comps (c # s) = comps s"
  by (simp add: comps_def)

lemma comps_snoc_sep: "is_sep c \<Longrightarrow> comps (s @ [c]) = comps s"
  using comps_append_sep[of s "[]"] by (simp add: is_sep_def)

lemma comps_dropWhile: "comps (dropWhile is_sep s) = comps s"
  by (induction s) (auto simp: comps_Cons_sep)

lemma comps_strip_trailing: "comps (strip_trailing s) = comps s"
proof (induction s rule: rev_induct)
  case Nil
  then show ?case by (simp add: strip_trailing_def)
next
  case (snoc c s)
  then show ?case by (auto simp: strip_trailing_def comps_snoc_sep)
qed

lemma comps_core: "comps (core s) = comps s"
  by (simp add: core_def comps_strip_trailing comps_dropWhile)

lemma comps_seps_append: "\<forall>c \<in> set a. is_sep c \<Longrightarrow> comps (a @ s) = comps s"
  by (induction a) (auto simp: comps_Cons_sep)

lemma core_Nil_comps: "core s = [] \<Longrightarrow> comps s = []"
  using comps_core[of s] by simp

lemma plain_last: "plain_name n \<Longrightarrow> \<not> is_sep (last n)"
  by (auto simp: plain_name_def)

lemma plain_hd: "plain_name n \<Longrightarrow> \<not> is_sep (hd n)"
  by (auto simp: plain_name_def)

lemma plain_core: 
  assumes "plain_name n"
  shows "core n = n" and "trailing_seps n = []"
proof -
  from assms obtain a m where n: "n = m @ [a]" and a: "\<not> is_sep a"
    by (cases n rule: rev_cases) (auto simp: plain_name_def)
  have d: "dropWhile is_sep n = n" using assms by (cases n) (auto simp: plain_name_def)
  show "core n = n" unfolding core_def d using n a by (simp add: strip_trailing_def)
  show "trailing_seps n = []" using n a by (simp add: trailing_seps_def)
qed

lemma leading_seps_all: "\<forall>c \<in> set (leading_seps p). is_sep c"
  by (auto simp: leading_seps_def dest: set_takeWhileD)

lemma build_plain_cases:
  assumes "plain_name n"
  shows "g_build_filename p n = (if p = [] then n else leading_seps p @ (if core p = [] then n else core p @ ''/'' @ n))"
  using plain_core[OF assms] assms by (auto simp: g_build_filename_def plain_name_def)

lemma comps_build:
  assumes "plain_name n"
  shows "comps (g_build_filename p n) = comps p @ [n]"
proof -
  have "comps (core p @ CHR ''/'' # n) = comps p @ [n]"
    by (simp add: comps_append_sep comps_core comps_plain assms)
  then show ?thesis
    using leading_seps_all[of p] assms
    by (auto simp: build_plain_cases comps_seps_append comps_plain core_Nil_comps)
qed

lemma build_ne: "plain_name n \<Longrightarrow> g_build_filename p n \<noteq> []"
  by (auto simp: build_plain_cases plain_name_def)

lemma build_not_ends_with_sep: 
  assumes "plain_name n" shows "\<not> ends_with_sep (g_build_filename p n)"
proof -
  have n: "n \<noteq> []" using assms by (simp add: plain_name_def)
  have "last (g_build_filename p n) = last n"
    using n by (auto simp: build_plain_cases[OF assms])
  then show ?thesis using plain_last[OF assms] by (simp add: ends_with_sep_def)
qed

lemma absolute_leading: "absolute p \<longleftrightarrow> leading_seps p \<noteq> []"
  by (cases p) (auto simp: absolute_def leading_seps_def)

lemma absolute_append: "a \<noteq> [] \<Longrightarrow> absolute (a @ b) = absolute a"
  by (cases a) (auto simp: absolute_def)

lemma core_hd: "core p \<noteq> [] \<Longrightarrow> \<not> is_sep (hd (core p))"
proof -
  assume a: "core p \<noteq> []"
  let ?d = "dropWhile is_sep p"
  have "?d = [] \<Longrightarrow> core p = []"
    unfolding core_def strip_trailing_def by (simp only: rev.simps dropWhile.simps)
  with a have dn: "?d \<noteq> []" by blast
  then have h: "\<not> is_sep (hd ?d)" by (rule hd_dropWhile)
  have "\<exists>r. ?d = core p @ r"
    unfolding core_def strip_trailing_def
    by (metis rev_append rev_rev_ident takeWhile_dropWhile_id)
  then obtain r where "?d = core p @ r" by blast
  then have "hd ?d = hd (core p)" using a by (metis hd_append2)
  with h show ?thesis by simp
qed

lemma absolute_build:
  assumes "plain_name n" shows "absolute (g_build_filename p n) = absolute p"
proof (cases "p = []")
  case True
  then show ?thesis using assms plain_hd[OF assms] by (cases n) (auto simp: build_plain_cases absolute_def plain_name_def)
next
  case False
  show ?thesis
  proof (cases "leading_seps p = []")
    case True
    then have na: "\<not> absolute p" by (simp add: absolute_leading)
    have "core p \<noteq> []" using True False
      by (cases p) (auto simp: core_def leading_seps_def strip_trailing_def split: if_splits)
    then have "\<not> absolute (core p @ ''/'' @ n)" using core_hd[of p]
      by (cases "core p") (auto simp: absolute_def)
    then show ?thesis using na True False \<open>core p \<noteq> []\<close> by (simp add: build_plain_cases[OF assms])
  next
    case F: False
    then have "absolute p" by (simp add: absolute_leading)
    moreover have "absolute (leading_seps p @ (if core p = [] then n else core p @ ''/'' @ n))"
      using F leading_seps_all[of p] by (cases "leading_seps p") (auto simp: absolute_def)
    ultimately show ?thesis using False by (simp add: build_plain_cases[OF assms])
  qed
qed

subsection \<open>Path resolution\<close>

lemma walk_snoc:
  assumes "plain_name c"
  shows "walk k fs False cur (xs @ [c]) =
     (case walk k fs True cur xs of None \<Rightarrow> None
      | Some P \<Rightarrow> if is_dir_obj (fs P) then Some (P @ [c]) else None)"
proof (induction k fs "True" cur xs rule: walk.induct)
  case (1 k fs cur)
  have "follow_target fs False cur c [] = None" by (simp add: follow_target_def)
  then show ?case using assms by (simp add: plain_name_def)
next
  case (2 k fs cur x xs)
  have ft: "follow_target fs False cur x (xs @ [c]) = follow_target fs True cur x xs"
    by (simp add: follow_target_def)
  show ?case
  proof (cases "is_dir_obj (fs cur)")
    case False
    then show ?thesis by simp
  next
    case d: True
    show ?thesis
    proof (cases "x = ''.''")
      case True
      then show ?thesis using "2.hyps"(1) d by simp
    next
      case nd: False
      show ?thesis
      proof (cases "x = ''..''")
        case True
        then show ?thesis using "2.hyps"(2) d nd by simp
      next
        case ndd: False
        show ?thesis
        proof (cases "follow_target fs True cur x xs")
          case None
          then show ?thesis using "2.hyps"(3) d nd ndd ft by simp
        next
          case (Some t)
          show ?thesis
          proof (cases k)
            case 0
            then show ?thesis using d nd ndd ft Some by simp
          next
            case (Suc k')
            then show ?thesis using "2.hyps"(4)[OF _ nd ndd Some Suc] d nd ndd ft Some by simp
          qed
        qed
      qed
    qed
  qed
qed
lemma parts_id: "dir_part s @ last_part s = s"
  unfolding dir_part_def last_part_def
  by (metis rev_append rev_rev_ident takeWhile_dropWhile_id)

lemma last_part_nosep: "\<forall>c \<in> set (last_part s). \<not> is_sep c"
  by (auto simp: last_part_def dest: set_takeWhileD)

lemma dir_part_last: "dir_part s \<noteq> [] \<Longrightarrow> is_sep (last (dir_part s))"
  unfolding dir_part_def
  by (metis (mono_tags, lifting) hd_dropWhile last_rev rev_is_Nil_conv)

lemma dir_part_ne: "\<exists>c \<in> set s. is_sep c \<Longrightarrow> dir_part s \<noteq> []"
  by (auto simp: dir_part_def)

lemma dir_part_Nil: "\<not> (\<exists>c \<in> set s. is_sep c) \<Longrightarrow> dir_part s = [] \<and> last_part s = s"
proof -
  assume a: "\<not> (\<exists>c \<in> set s. is_sep c)"
  then have "dir_part s = []" by (auto simp: dir_part_def)
  then show ?thesis using parts_id[of s] by simp
qed

lemma comps_parts:
  "comps s = comps (dir_part s) @ (if last_part s = [] then [] else [last_part s])"
proof (cases "dir_part s = []")
  case True
  then have "last_part s = s" using parts_id[of s] by simp
  then show ?thesis using True last_part_nosep[of s] by (auto simp: comps_nosep)
next
  case False
  then obtain p' where p: "dir_part s = p' @ ''/''"
    using dir_part_last[OF False] by (cases "dir_part s" rule: rev_cases) (auto simp: is_sep_def)
  have "comps s = comps (p' @ CHR ''/'' # last_part s)" using parts_id[of s] p by simp
  also have "\<dots> = comps p' @ comps (last_part s)" by (rule comps_append_sep)
  also have "comps p' = comps (dir_part s)" using comps_append_sep[of p' "[]"] p by simp
  finally show ?thesis using last_part_nosep[of s] by (auto simp: comps_nosep)
qed

lemma strip_trailing_prefix: "\<exists>r. s = strip_trailing s @ r \<and> (\<forall>c \<in> set r. is_sep c)"
  unfolding strip_trailing_def
  by (metis rev_append rev_rev_ident set_rev set_takeWhileD takeWhile_dropWhile_id)

lemma comps_dirname:
  assumes "\<exists>c \<in> set s. is_sep c"
  shows "comps (g_path_get_dirname s) = comps (dir_part s)"
proof -
  have "comps ''/'' = []" by (simp add: comps_def is_sep_def)
  moreover have "strip_trailing (dir_part s) = [] \<Longrightarrow> comps (dir_part s) = []"
    using comps_strip_trailing[of "dir_part s"] by simp
  ultimately show ?thesis using assms
    by (auto simp: g_path_get_dirname_def Let_def comps_strip_trailing)
qed

lemma absolute_dirname:
  assumes "\<exists>c \<in> set s. is_sep c"
  shows "absolute (g_path_get_dirname s) = absolute s"
proof -
  let ?d = "dir_part s"
  have dn: "?d \<noteq> []" using assms by (rule dir_part_ne)
  have as: "absolute s = absolute ?d" using parts_id[of s] absolute_append[OF dn, of "last_part s"] by simp
  obtain r where r: "?d = strip_trailing ?d @ r" "\<forall>c \<in> set r. is_sep c"
    using strip_trailing_prefix by blast
  show ?thesis
  proof (cases "strip_trailing ?d = []")
    case True
    then have "?d = r" using r by simp
    then have "absolute ?d" using dn r(2) by (cases r) (auto simp: absolute_def)
    then show ?thesis using True assms as by (simp add: g_path_get_dirname_def absolute_def is_sep_def)
  next
    case False
    then have "absolute ?d = absolute (strip_trailing ?d)"
      using r(1) absolute_append[OF False, of r] by simp
    then show ?thesis using False assms as by (simp add: g_path_get_dirname_def Let_def)
  qed
qed

lemma ends_with_sep_parts: "s \<noteq> [] \<Longrightarrow> ends_with_sep s \<longleftrightarrow> last_part s = []"
proof -
  assume "s \<noteq> []"
  then show ?thesis
    by (cases s rule: rev_cases) (auto simp: ends_with_sep_def last_part_def)
qed

subsection \<open>Renaming\<close>

lemma namei_build:
  assumes "plain_name n"
  shows "namei False w (g_build_filename p n) =
     (case walk SYMLOOP_MAX (lookup w) True (if absolute p then [] else cwd w) (comps p) of
        None \<Rightarrow> None
      | Some P \<Rightarrow> if is_dir_obj (lookup w P) then Some (P @ [n]) else None)"
proof -
  have "namei False w (g_build_filename p n) =
      walk SYMLOOP_MAX (lookup w) False (if absolute p then [] else cwd w) (comps p @ [n])"
    using build_ne[OF assms, of p] build_not_ends_with_sep[OF assms, of p]
    by (simp add: namei_def comps_build[OF assms] absolute_build[OF assms] split: option.splits)
  then show ?thesis by (simp add: walk_snoc[OF assms])
qed

lemma last_comp_alt: "last_comp s = (if comps s = [] then None else Some (last (comps s)))"
  by (cases "comps s") (simp_all add: last_comp_def)

lemma last_comp_parts: "last_part s \<noteq> [] \<Longrightarrow> last_comp s = Some (last_part s)"
  by (simp add: last_comp_alt comps_parts[of s])

lemma plain_last_part:
  assumes "last_part s \<noteq> []" and "\<not> dot_or_dotdot s"
  shows "plain_name (last_part s)"
  using assms last_part_nosep[of s] by (auto simp: plain_name_def dot_or_dotdot_def last_comp_parts)

lemma namei_plain_last:
  assumes "last_part s \<noteq> []" and "\<not> dot_or_dotdot s"
  shows "namei False w s =
     (case walk SYMLOOP_MAX (lookup w) True (if absolute s then [] else cwd w) (comps (dir_part s)) of
        None \<Rightarrow> None
      | Some P \<Rightarrow> if is_dir_obj (lookup w P) then Some (P @ [last_part s]) else None)"
proof -
  have sn: "s \<noteq> []" using assms(1) by (auto simp: last_part_def)
  have ne: "\<not> ends_with_sep s" using assms(1) sn by (simp add: ends_with_sep_parts)
  have "namei False w s =
      walk SYMLOOP_MAX (lookup w) False (if absolute s then [] else cwd w) (comps (dir_part s) @ [last_part s])"
    using sn ne assms(1) by (simp add: namei_def comps_parts[of s] split: option.splits)
  then show ?thesis by (simp add: walk_snoc[OF plain_last_part[OF assms]])
qed

lemma rename_paths:
  assumes pn: "plain_name nn"
    and o: "namei False w old = Some ocp" and n: "namei False w (g_build_filename (g_path_get_dirname old) nn) = Some ncp"
    and ex: "lookup w ocp \<noteq> None" and nd: "\<not> dot_or_dotdot old"
    and np: "ocp = ncp \<or> \<not> prefix ocp ncp"
  shows "\<exists>P tl. plain_name tl \<and> ocp = P @ [tl] \<and> ncp = P @ [nn]"
proof -
  let ?K = "SYMLOOP_MAX" and ?fs = "lookup w"
  let ?dir = "g_path_get_dirname old"
  let ?st = "\<lambda>s. if absolute s then [] else cwd w"
  from n obtain P where P: "walk ?K ?fs True (?st ?dir) (comps ?dir) = Some P"
      "is_dir_obj (?fs P)" "ncp = P @ [nn]"
    by (auto simp: namei_build[OF pn] split: option.splits if_splits)
  have on: "old \<noteq> []" using o by (auto simp: namei_def)
  show ?thesis
  proof (cases "\<exists>c \<in> set old. is_sep c")
    case False
    then have dp: "dir_part old = []" "last_part old = old" using dir_part_Nil[of old] by auto
    have dir: "?dir = ''.''" using False by (simp add: g_path_get_dirname_def)
    have na: "\<not> absolute old" using False on by (cases old) (auto simp: absolute_def)
    have "walk ?K ?fs True (cwd w) [''.''] = Some P" using P(1) dir by (simp add: comps_def absolute_def is_sep_def)
    then have Pc: "P = cwd w" by (auto split: if_splits)
    have lp: "last_part old \<noteq> []" using dp on by simp
    have "namei False w old = Some (cwd w @ [old])"
      using namei_plain_last[OF lp nd, of w] dp na P(2) Pc by simp
    then have "ocp = P @ [old]" using o Pc by simp
    moreover have "plain_name old" using plain_last_part[OF lp nd] dp by simp
    ultimately show ?thesis using P(3) by blast
  next
    case True
    have cd: "comps ?dir = comps (dir_part old)" using True by (rule comps_dirname)
    have ad: "absolute ?dir = absolute old" using True by (rule absolute_dirname)
    have W: "walk ?K ?fs True (?st old) (comps (dir_part old)) = Some P" using P(1) cd ad by simp
    show ?thesis
    proof (cases "last_part old = []")
      case lp: True
      then have es: "ends_with_sep old" using on by (simp add: ends_with_sep_parts)
      have "comps old = comps (dir_part old)" using lp by (simp add: comps_parts[of old])
      then have "ocp = P" using o es on W by (auto simp: namei_def split: option.splits if_splits)
      then have "prefix ocp ncp \<and> ocp \<noteq> ncp" using P(3) by simp
      then show ?thesis using np by blast
    next
      case lp: False
      have "namei False w old = Some (P @ [last_part old])"
        using namei_plain_last[OF lp nd, of w] W P(2) by simp
      then have "ocp = P @ [last_part old]" using o by simp
      then show ?thesis using plain_last_part[OF lp nd] P(3) by blast
    qed
  qed
qed

lemma rekey_target:
  assumes "ocp \<noteq> ncp" and "\<not> prefix ocp ncp" and "q \<noteq> ncp"
  shows "rekey ocp ncp q = ncp \<longleftrightarrow> q = ocp"
  using assms by (auto simp: rekey_def prefix_def)

lemma map_of_rekey:
  assumes "ocp \<noteq> ncp" and "\<not> prefix ocp ncp"
  shows "map_of (map (\<lambda>(q, o'). (rekey ocp ncp q, o')) (filter (\<lambda>(q, _). q \<noteq> ncp) xs)) ncp
     = map_of xs ocp"
proof (induction xs)
  case Nil
  then show ?case by simp
next
  case (Cons a xs)
  obtain q ob where a: "a = (q, ob)" by (cases a)
  show ?case
  proof (cases "q = ncp")
    case True
    then show ?thesis using Cons a assms(1) by simp
  next
    case False
    then show ?thesis using Cons a rekey_target[OF assms False] by auto
  qed
qed
text \<open>
  Claim C10 as stated fails: the new name is joined to the directory of the old path
  unchecked, so a name with a separator leaves it. In \<open>w_ex\<close>, renaming \<^verbatim>\<open>/d/ok\<close> to
  \<^verbatim>\<open>../g\<close> succeeds and the file is then \<^verbatim>\<open>/g\<close>, outside \<^verbatim>\<open>/d\<close>.
\<close>

theorem rename_leaves_directory_counterexample:
  "fst (rename_item w_ex ''/d/ok'' ''../g'') \<and>
   g_path_get_dirname ''/d/ok'' = ''/d'' \<and>
   namei False w_ex ''/d/ok'' = Some [''d'', ''ok''] \<and>
   lookup w_ex [''d'', ''ok''] = Some (FileObj ''hello'') \<and>
   lookup (snd (rename_item w_ex ''/d/ok'' ''../g'')) [''g''] = Some (FileObj ''hello'') \<and>
   lookup (snd (rename_item w_ex ''/d/ok'' ''../g'')) [''d'', ''ok''] = None"
  by code_simp

text \<open>
  Claim C10, amended. For every old path and every new name that is a single path
  component (not empty, without a separator, neither \<^verbatim>\<open>.\<close> nor \<^verbatim>\<open>..\<close>), a successful
  \<^verbatim>\<open>rename_item\<close> leaves the entry in the directory it was in: the old path names an entry
  \<open>tl\<close> of a directory \<open>P\<close>, and afterwards the same object is the entry \<open>new_name\<close> of \<open>P\<close>.
\<close>

theorem rename_stays_in_directory:
  assumes "plain_name new_name" and "rename_item w old_path new_name = (True, w')"
  shows "\<exists>P tl. namei False w old_path = Some (P @ [tl]) \<and> lookup w (P @ [tl]) \<noteq> None \<and>
           namei False w (g_build_filename (g_path_get_dirname old_path) new_name)
             = Some (P @ [new_name]) \<and>
           lookup w' (P @ [new_name]) = lookup w (P @ [tl])"
proof -
  let ?new = "g_build_filename (g_path_get_dirname old_path) new_name"
  from assms(2) have r: "sys_rename w old_path ?new = (True, w')"
    by (simp add: rename_item_def Let_def)
  then obtain ocp ncp where o: "namei False w old_path = Some ocp"
      and n: "namei False w ?new = Some ncp"
    by (auto simp: sys_rename_def split: option.splits)
  from r o n have ex: "lookup w ocp \<noteq> None" and nd: "\<not> dot_or_dotdot old_path"
      and np: "ocp = ncp \<or> \<not> prefix ocp ncp"
    by (auto simp: sys_rename_def split: option.splits if_splits)
  from rename_paths[OF assms(1) o n ex nd np]
  obtain P tl where P: "ocp = P @ [tl]" "ncp = P @ [new_name]" by blast
  have "lookup w' ncp = lookup w ocp"
  proof (cases "ocp = ncp")
    case True
    then have "w' = w" using r o n ex nd by (auto simp: sys_rename_def split: option.splits if_splits)
    then show ?thesis using True by simp
  next
    case False
    then have np': "\<not> prefix ocp ncp" using np by simp
    have "w' = w\<lparr>files := map (\<lambda>(q, o'). (rekey ocp ncp q, o'))
                                         (filter (\<lambda>(q, _). q \<noteq> ncp) (files w))\<rparr>"
      using r o n ex nd False by (auto simp: sys_rename_def split: option.splits if_splits)
    then show ?thesis by (simp add: lookup_def map_of_rekey[OF False np'])
  qed
  then show ?thesis using P o n ex by auto
qed

theorem rename_stays_in_directory_witness:
  "plain_name ''renamed'' \<and> fst (rename_item w_ex ''/d/ok'' ''renamed'') \<and>
   (\<exists>P tl. namei False w_ex ''/d/ok'' = Some (P @ [tl]) \<and> lookup w_ex (P @ [tl]) \<noteq> None \<and>
           namei False w_ex (g_build_filename (g_path_get_dirname ''/d/ok'') ''renamed'')
             = Some (P @ [''renamed'']) \<and>
           lookup (snd (rename_item w_ex ''/d/ok'' ''renamed'')) (P @ [''renamed''])
             = lookup w_ex (P @ [tl])) \<and>
   namei False w_ex ''/d/ok'' = Some [''d'', ''ok''] \<and>
   lookup (snd (rename_item w_ex ''/d/ok'' ''renamed'')) [''d'', ''renamed'']
     = Some (FileObj ''hello'')"
proof -
  have p: "plain_name ''renamed''" by code_simp
  have f: "fst (rename_item w_ex ''/d/ok'' ''renamed'')" by code_simp
  then have r: "rename_item w_ex ''/d/ok'' ''renamed''
      = (True, snd (rename_item w_ex ''/d/ok'' ''renamed''))"
    by (metis prod.collapse)
  have c: "namei False w_ex ''/d/ok'' = Some [''d'', ''ok''] \<and>
     lookup (snd (rename_item w_ex ''/d/ok'' ''renamed'')) [''d'', ''renamed'']
       = Some (FileObj ''hello'')"
    by code_simp
  show ?thesis using rename_stays_in_directory[OF p r] p f c by blast
qed



lemma follow_target_True:
  "follow_target fs True cur c cs = (if cs = [] then (case fs (cur @ [c]) of Some (LinkObj t) \<Rightarrow> Some t | _ \<Rightarrow> None) else follow_target fs False cur c cs)"
  by (simp add: follow_target_def)


subsection \<open>The file system under removals\<close>


















subsection \<open>Removal\<close>







lemma never_on_nonempty_simps [simp]:
  "never_on_nonempty []"
  "never_on_nonempty (a @ b) \<longleftrightarrow> never_on_nonempty a \<and> never_on_nonempty b"
  "never_on_nonempty [(f, wb, rc)] \<longleftrightarrow> fst (sys_remove wb f) \<noteq> ENOTEMPTY"
  unfolding never_on_nonempty_def by fastforce+









subsection \<open>The calls of the walk\<close>

lemma stops_Nil [simp]: "stops_at_failure fn [] rc"
  by (simp add: stops_at_failure_def)







subsection \<open>Deleting a tree\<close>










subsection \<open>Copying a tree: the result\<close>

text \<open>
  Claim C3 fails of the program: the result of \<^verbatim>\<open>mkdir\<close> is not looked at. In \<open>w_copy\<close> the
  source \<^verbatim>\<open>/empty\<close> is a directory and the name \<^verbatim>\<open>empty\<close> in \<^verbatim>\<open>/taken\<close> is a file, so the
  destination directory cannot be created; \<^verbatim>\<open>copy_item\<close> returns \<^verbatim>\<open>TRUE\<close> all the same and
  the file is still there.
\<close>

theorem copy_ignores_mkdir_counterexample:
  "map_option st_isdir (sys_stat w_copy ''/empty'') = Some True \<and>
   g_build_filename ''/taken'' (g_path_get_basename ''/empty'') = ''/taken/empty'' \<and>
   \<not> fst (sys_mkdir w_copy ''/taken/empty'' True) \<and>
   (case copy_item st_unset 4 w_copy ''/empty'' ''/taken'' of
      None \<Rightarrow> False
    | Some (r, w', started) \<Rightarrow>
        r \<and> started = [] \<and> lookup w' [''taken'', ''empty''] = Some (FileObj ''old''))"
  by code_simp

end
